theory Spec2Isabelle
  imports Main
begin

section \<open>Stale-branch cleanup: a shallow embedding of \<open>src/index.js\<close>\<close>

text \<open>
  The action is one script. Its inputs are read through \<open>core.getInput\<close>, its remote
  collaborator is the GitHub REST client, and its observable results are the two
  accumulators \<open>outputDeletedBranches\<close> and \<open>deletedCount\<close>, the output
  \<open>deleted-branches\<close> and the failure message of \<open>core.setFailed\<close>.

  Strings are lists of \<open>char\<close>: code units restricted to the 8-bit range. Numbers are
  unbounded integers; the script only adds, multiplies and compares integers, which
  JavaScript doubles do exactly below \<open>2^53\<close>.
\<close>

subsection \<open>String helpers of the exclusion parser (lines 79, 83, 88)\<close>

text \<open>\<open>String.prototype.split\<close> with a one-character separator: it always returns at
  least one piece, and an empty input gives one empty piece.\<close>

fun split_on :: "char \<Rightarrow> string \<Rightarrow> string list" where
  "split_on d [] = [[]]"
| "split_on d (c # cs) =
     (if c = d then [] # split_on d cs
      else (case split_on d cs of [] \<Rightarrow> [[c]] | x # xs \<Rightarrow> (c # x) # xs))"

text \<open>The white space and line terminators that \<open>String.prototype.trim\<close> strips,
  as far as they lie in the 8-bit range: TAB, LF, VT, FF, CR, SP and NBSP.\<close>

definition is_js_space :: "char \<Rightarrow> bool" where
  "is_js_space c = (of_char c \<in> {9, 10, 11, 12, 13, 32, 160 :: nat})"

definition trim :: "string \<Rightarrow> string" where
  "trim s = rev (dropWhile is_js_space (rev (dropWhile is_js_space s)))"

text \<open>\<open>item.includes('*')\<close>.\<close>

definition includes_star :: "string \<Rightarrow> bool" where
  "includes_star item = (CHR ''*'' \<in> set item)"

text \<open>\<open>item.replace(/\*/g, '.*')\<close>: every star becomes the two characters
  \<open>.*\<close>; every other character is kept as it is, regex syntax characters
  included.\<close>

fun replace_stars :: "string \<Rightarrow> string" where
  "replace_stars [] = []"
| "replace_stars (c # cs) =
     (if c = CHR ''*'' then CHR ''.'' # CHR ''*'' # replace_stars cs
      else c # replace_stars cs)"

subsection \<open>A fragment of the JavaScript regular expressions\<close>

text \<open>
  \<open>new RegExp(source)\<close> and \<open>RegExp.prototype.test\<close> are built into the language.
  They are modelled for the patterns made of ordinary characters, the dot, the
  assertions \<open>^\<close> and \<open>$\<close>, and the quantifiers \<open>*\<close>, \<open>+\<close> and \<open>?\<close> with their
  lazy forms. A pattern that uses any other syntax character (backslash, parentheses,
  brackets, braces, the bar) is reported as \<open>Unmodelled\<close>: the model says nothing
  about it. Inside the fragment the constructor either throws a \<open>SyntaxError\<close> or
  returns the compiled pattern.
\<close>

datatype atom = PatternChar char | Dot

datatype repeat = ZeroOrMore | OneOrMore | ZeroOrOne

datatype rterm =
    AssertStart
  | AssertEnd
  | Single atom
  | Repeated atom repeat bool

type_synonym regexp = "rterm list"

datatype regexp_outcome = Compiled regexp | SyntaxError | Unmodelled

definition is_unmodelled_char :: "char \<Rightarrow> bool" where
  "is_unmodelled_char c =
     (c \<in> {CHR 0x5C, CHR ''('', CHR '')'', CHR ''['', CHR '']'', CHR ''{'', CHR ''}'', CHR ''|''})"

definition repeat_of :: "char \<Rightarrow> repeat option" where
  "repeat_of c =
     (if c = CHR ''*'' then Some ZeroOrMore
      else if c = CHR ''+'' then Some OneOrMore
      else if c = CHR ''?'' then Some ZeroOrOne
      else None)"

text \<open>A quantifier character applies to the term just read. It needs an atom that
  has no quantifier yet; a \<open>?\<close> after a greedy quantifier makes it lazy; anything else
  is the error "nothing to repeat". The second argument holds the terms read so far,
  last one first.\<close>

fun quantify :: "char \<Rightarrow> repeat \<Rightarrow> rterm list \<Rightarrow> rterm list option" where
  "quantify c q (Single a # acc) = Some (Repeated a q False # acc)"
| "quantify c q (Repeated a q' False # acc) =
     (if c = CHR ''?'' then Some (Repeated a q' True # acc) else None)"
| "quantify c q acc = None"

fun parse_pattern :: "string \<Rightarrow> rterm list \<Rightarrow> regexp_outcome" where
  "parse_pattern [] acc = Compiled (rev acc)"
| "parse_pattern (c # cs) acc =
     (if is_unmodelled_char c then Unmodelled
      else if c = CHR ''^'' then parse_pattern cs (AssertStart # acc)
      else if c = CHR ''$'' then parse_pattern cs (AssertEnd # acc)
      else if c = CHR ''.'' then parse_pattern cs (Single Dot # acc)
      else (case repeat_of c of
              Some q \<Rightarrow> (case quantify c q acc of
                           None \<Rightarrow> SyntaxError
                         | Some acc' \<Rightarrow> parse_pattern cs acc')
            | None \<Rightarrow> parse_pattern cs (Single (PatternChar c) # acc)))"

definition RegExp_new :: "string \<Rightarrow> regexp_outcome" where
  "RegExp_new source = parse_pattern source []"

text \<open>Without the \<open>s\<close> flag the dot matches every character but a line terminator
  (LF and CR in the 8-bit range).\<close>

fun atom_matches :: "atom \<Rightarrow> char \<Rightarrow> bool" where
  "atom_matches (PatternChar p) c = (c = p)"
| "atom_matches Dot c = (c \<noteq> CHR 0x0A \<and> c \<noteq> CHR 0x0D)"

text \<open>\<open>match_here ts at_start s\<close>: the terms \<open>ts\<close> match a prefix of \<open>s\<close>, where
  \<open>at_start\<close> tells whether \<open>s\<close> is the whole input (index 0). Without the \<open>m\<close>
  flag \<open>^\<close> holds at index 0 only and \<open>$\<close> at the end of the input only. Whether a
  match exists does not depend on a quantifier being greedy or lazy.\<close>

fun match_here :: "rterm list \<Rightarrow> bool \<Rightarrow> string \<Rightarrow> bool" where
  "match_here [] at_start s = True"
| "match_here (AssertStart # ts) at_start s = (at_start \<and> match_here ts at_start s)"
| "match_here (AssertEnd # ts) at_start s = (s = [] \<and> match_here ts at_start s)"
| "match_here (Single a # ts) at_start [] = False"
| "match_here (Single a # ts) at_start (c # cs) =
     (atom_matches a c \<and> match_here ts False cs)"
| "match_here (Repeated a ZeroOrOne lz # ts) at_start [] = match_here ts at_start []"
| "match_here (Repeated a ZeroOrOne lz # ts) at_start (c # cs) =
     (match_here ts at_start (c # cs) \<or> (atom_matches a c \<and> match_here ts False cs))"
| "match_here (Repeated a ZeroOrMore lz # ts) at_start [] = match_here ts at_start []"
| "match_here (Repeated a ZeroOrMore lz # ts) at_start (c # cs) =
     (match_here ts at_start (c # cs)
      \<or> (atom_matches a c \<and> match_here (Repeated a ZeroOrMore lz # ts) False cs))"
| "match_here (Repeated a OneOrMore lz # ts) at_start [] = False"
| "match_here (Repeated a OneOrMore lz # ts) at_start (c # cs) =
     (atom_matches a c \<and> match_here (Repeated a ZeroOrMore lz # ts) False cs)"

text \<open>\<open>regex.test(s)\<close> for a pattern without flags: a match may start at any
  index.\<close>

fun match_from :: "regexp \<Rightarrow> bool \<Rightarrow> string \<Rightarrow> bool" where
  "match_from r at_start [] = match_here r at_start []"
| "match_from r at_start (c # cs) =
     (match_here r at_start (c # cs) \<or> match_from r False cs)"

definition RegExp_test :: "regexp \<Rightarrow> string \<Rightarrow> bool" where
  "RegExp_test r s = match_from r True s"

subsection \<open>Exclusion rules (lines 72-96 and 170-187)\<close>

record ruleset =
  skipBranchNames :: "string list"
  skipBranchPatternsRegex :: "regexp list"

datatype compile_outcome = Rules ruleset | RegExpThrew | OutsideFragment

text \<open>Line 79: split at commas, trim every piece, drop the empty ones.\<close>

definition exclusions :: "string \<Rightarrow> string list" where
  "exclusions skipBranches = filter (\<lambda>item. length item > 0) (map trim (split_on CHR '','' skipBranches))"

text \<open>Line 88: the pattern source handed to \<open>new RegExp\<close>.\<close>

definition pattern_source :: "string \<Rightarrow> string" where
  "pattern_source item = ''^'' @ replace_stars item @ ''$''"

text \<open>Lines 81-96: the loop over the entries, in order. The first entry whose
  pattern the constructor rejects ends the compilation with its exception.\<close>

fun compile_items :: "string list \<Rightarrow> ruleset \<Rightarrow> compile_outcome" where
  "compile_items [] rs = Rules rs"
| "compile_items (item # items) rs =
     (if includes_star item then
        (case RegExp_new (pattern_source item) of
           Compiled regexPattern \<Rightarrow>
             compile_items items
               (rs\<lparr>skipBranchPatternsRegex := skipBranchPatternsRegex rs @ [regexPattern]\<rparr>)
         | SyntaxError \<Rightarrow> RegExpThrew
         | Unmodelled \<Rightarrow> OutsideFragment)
      else compile_items items (rs\<lparr>skipBranchNames := skipBranchNames rs @ [item]\<rparr>))"

definition compile_exclusions :: "string \<Rightarrow> compile_outcome" where
  "compile_exclusions skipBranches =
     compile_items (exclusions skipBranches)
       \<lparr>skipBranchNames = [], skipBranchPatternsRegex = []\<rparr>"

text \<open>Lines 171-183: the literal names first, then the patterns in order until one
  matches.\<close>

fun any_pattern_matches :: "regexp list \<Rightarrow> string \<Rightarrow> bool" where
  "any_pattern_matches [] branchName = False"
| "any_pattern_matches (pattern # patterns) branchName =
     (if RegExp_test pattern branchName then True
      else any_pattern_matches patterns branchName)"

definition isExcluded :: "ruleset \<Rightarrow> string \<Rightarrow> bool" where
  "isExcluded rs branchName =
     (if branchName \<in> set (skipBranchNames rs) then True
      else any_pattern_matches (skipBranchPatternsRegex rs) branchName)"

subsection \<open>Errors, dates and the remote collaborator\<close>

text \<open>A JavaScript \<open>Error\<close> with its message. The script tells errors apart by their
  message only.\<close>

datatype js_error = Error string

fun message :: "js_error \<Rightarrow> string" where
  "message (Error m) = m"

text \<open>A \<open>Date\<close> holds a time value in milliseconds or is invalid (\<open>NaN\<close>, here
  \<open>None\<close>). The constructor clips at 8.64e15 milliseconds on either side of the
  epoch.\<close>

definition max_time_value :: int where
  "max_time_value = 8640000000000000"

definition new_Date :: "int \<Rightarrow> int option" where
  "new_Date t = (if \<bar>t\<bar> \<le> max_time_value then Some t else None)"

text \<open>\<open>a < b\<close> on two dates compares the time values; a comparison with \<open>NaN\<close> is
  false.\<close>

fun date_less :: "int option \<Rightarrow> int option \<Rightarrow> bool" where
  "date_less (Some a) (Some b) = (a < b)"
| "date_less a b = False"

text \<open>Line 70: \<open>new Date(now.getTime() - staleDays * 24 * 60 * 60 * 1000)\<close>.\<close>

definition staleThreshold :: "int \<Rightarrow> int \<Rightarrow> int option" where
  "staleThreshold now staleDays = new_Date (now - staleDays * 24 * 60 * 60 * 1000)"

text \<open>Lines 197 and 201: the committer date as a \<open>Date\<close>, and the test
  \<open>commitDate < staleThreshold\<close>. The remote sends ISO-8601 timestamps; the model
  takes the time value they denote.\<close>

definition isStale :: "int \<Rightarrow> int \<Rightarrow> int \<Rightarrow> bool" where
  "isStale committerDate now staleDays =
     date_less (new_Date committerDate) (staleThreshold now staleDays)"

text \<open>Line 198: \<open>Math.floor((now - commitDate) / (1000 * 60 * 60 * 24))\<close>, used in
  the log lines only.\<close>

definition daysSinceCommit :: "int \<Rightarrow> int \<Rightarrow> int" where
  "daysSinceCommit now committerDate = (now - committerDate) div (1000 * 60 * 60 * 24)"

record pull_request =
  state :: string
  merged_at :: "string option"

record branch =
  name :: string
  protected :: bool

text \<open>What the remote answers to the calls made while one branch is processed: each
  call either throws or returns its data. \<open>rateLimit_get\<close> is
  \<open>data.resources.core.remaining\<close>, \<open>getCommit\<close> the time value of
  \<open>commit.commit.committer.date\<close>, \<open>pulls_list_open\<close> the answer to the query
  with \<open>state: 'open'\<close>, \<open>compareCommits\<close> the field \<open>ahead_by\<close>,
  \<open>pulls_list_all\<close> the paginated answer to the query with \<open>state: 'all'\<close>.\<close>

record responses =
  rateLimit_get :: "js_error + int"
  getCommit :: "js_error + int"
  pulls_list_open :: "js_error + pull_request list"
  compareCommits :: "js_error + int"
  pulls_list_all :: "js_error + pull_request list"
  deleteRef :: "js_error + unit"

subsection \<open>Configuration (lines 37-66)\<close>

record config =
  staleDays :: int
  rules :: ruleset
  skipUmerged :: bool
  skipOpenPRs :: bool
  includeClosedPRs :: bool
  maxBranchesToDelete :: int
  processThrottleMs :: int
  rateLimitThreshold :: int
  continueOnErrors :: bool
  dryRun :: bool

subsection \<open>The rate-limit guard (lines 4-22)\<close>

text \<open>A probe that throws is caught inside the guard, which then lets the run
  proceed.\<close>

definition isSafeToProceedWithApiCalls :: "(js_error + int) \<Rightarrow> int \<Rightarrow> bool" where
  "isSafeToProceedWithApiCalls probe threshold =
     (case probe of
        Inr remaining \<Rightarrow> (if remaining < threshold then False else True)
      | Inl error \<Rightarrow> True)"

subsection \<open>The per-branch decision (lines 158-276)\<close>

datatype skip_reason =
    DefaultBranch
  | ProtectedBranch
  | ExcludedBranch
  | ActiveBranch
  | OpenPullRequests
  | UnmergedAndOpenPRs
  | UnmergedCommits

datatype gate = Blocked skip_reason | Passed

text \<open>Lines 206-217.\<close>

definition open_pr_gate :: "config \<Rightarrow> responses \<Rightarrow> js_error + gate" where
  "open_pr_gate cfg r =
     (if skipOpenPRs cfg then
        (case pulls_list_open r of
           Inl e \<Rightarrow> Inl e
         | Inr pullRequests \<Rightarrow>
             if length pullRequests > 0 then Inr (Blocked OpenPullRequests) else Inr Passed)
      else Inr Passed)"

text \<open>Lines 240-241. \<open>!pr.merged_at\<close> holds for \<open>null\<close> and for the empty
  string.\<close>

definition hasOpenPRs :: "pull_request list \<Rightarrow> bool" where
  "hasOpenPRs prs = list_ex (\<lambda>pr. state pr = ''open'') prs"

definition hasClosedUnmergedPRs :: "pull_request list \<Rightarrow> bool" where
  "hasClosedUnmergedPRs prs =
     list_ex (\<lambda>pr. state pr = ''closed'' \<and> (merged_at pr = None \<or> merged_at pr = Some [])) prs"

text \<open>Lines 220-257.\<close>

definition unmerged_gate :: "config \<Rightarrow> responses \<Rightarrow> js_error + gate" where
  "unmerged_gate cfg r =
     (if skipUmerged cfg then
        (case compareCommits r of
           Inl e \<Rightarrow> Inl e
         | Inr ahead_by \<Rightarrow>
             if ahead_by > 0 then
               (if includeClosedPRs cfg then
                  (case pulls_list_all r of
                     Inl e \<Rightarrow> Inl e
                   | Inr prs \<Rightarrow>
                       if hasOpenPRs prs then Inr (Blocked UnmergedAndOpenPRs)
                       else if hasClosedUnmergedPRs prs then Inr Passed
                       else Inr (Blocked UnmergedCommits))
                else Inr (Blocked UnmergedCommits))
             else Inr Passed)
      else Inr Passed)"

text \<open>Lines 158-257: everything that is decided about a branch before the deletion
  step.\<close>

datatype verdict = Skipped skip_reason | Deletable | ApiFailed js_error

definition evaluate :: "config \<Rightarrow> int \<Rightarrow> string \<Rightarrow> branch \<Rightarrow> responses \<Rightarrow> verdict" where
  "evaluate cfg now defaultBranch b r =
     (if name b = defaultBranch then Skipped DefaultBranch
      else if protected b then Skipped ProtectedBranch
      else if isExcluded (rules cfg) (name b) then Skipped ExcludedBranch
      else (case getCommit r of
              Inl e \<Rightarrow> ApiFailed e
            | Inr committerDate \<Rightarrow>
                if isStale committerDate now (staleDays cfg) then
                  (case open_pr_gate cfg r of
                     Inl e \<Rightarrow> ApiFailed e
                   | Inr (Blocked why) \<Rightarrow> Skipped why
                   | Inr Passed \<Rightarrow>
                       (case unmerged_gate cfg r of
                          Inl e \<Rightarrow> ApiFailed e
                        | Inr (Blocked why) \<Rightarrow> Skipped why
                        | Inr Passed \<Rightarrow> Deletable))
                else Skipped ActiveBranch))"

text \<open>The terminal decision for one branch: a skip, a deletion (the delete-ref call
  was issued and returned), a dry-run deletion (no call), or the error of the call that
  threw.\<close>

datatype decision = Skip skip_reason | Delete | DryRunDelete | Failed js_error

definition decide :: "config \<Rightarrow> int \<Rightarrow> string \<Rightarrow> branch \<Rightarrow> responses \<Rightarrow> decision" where
  "decide cfg now defaultBranch b r =
     (case evaluate cfg now defaultBranch b r of
        Skipped why \<Rightarrow> Skip why
      | ApiFailed e \<Rightarrow> Failed e
      | Deletable \<Rightarrow>
          if dryRun cfg then DryRunDelete
          else (case deleteRef r of Inl e \<Rightarrow> Failed e | Inr u \<Rightarrow> Delete))"

subsection \<open>The loop over the branches (lines 140-292)\<close>

text \<open>The state the loop changes: the two accumulators declared at lines 32-33, the
  counter of line 140, and a trace of what an observer of the run sees: the branch a
  pass starts on (line 156), each delete-ref call made (line 264) with whether it
  returned (\<open>True\<close>) or threw (\<open>False\<close>), the decision logged for the branch, and
  each suspension (line 290).\<close>

datatype event =
    Processing string
  | DeleteRefCall string bool
  | Decided string decision
  | Waiting int

record run_state =
  outputDeletedBranches :: "string list"
  deletedCount :: int
  processedCount :: int
  trace :: "event list"

definition initial_state :: run_state where
  "initial_state = \<lparr>outputDeletedBranches = [], deletedCount = 0, processedCount = 0, trace = []\<rparr>"

definition emit :: "event \<Rightarrow> run_state \<Rightarrow> run_state" where
  "emit ev st = st\<lparr>trace := trace st @ [ev]\<rparr>"

text \<open>How one pass of the loop body ends: it goes on to the next branch, or an
  exception leaves the loop.\<close>

datatype signal = NextBranch | Throws js_error

text \<open>Lines 287-291, reached only by a pass that runs to the end of the loop body.\<close>

definition throttle :: "config \<Rightarrow> run_state \<Rightarrow> signal \<times> run_state" where
  "throttle cfg st =
     (if processThrottleMs cfg > 0 then (NextBranch, emit (Waiting (processThrottleMs cfg)) st)
      else (NextBranch, st))"

text \<open>Lines 277-285: the handler of the per-branch \<open>try\<close>.\<close>

definition on_error :: "config \<Rightarrow> string \<Rightarrow> js_error \<Rightarrow> run_state \<Rightarrow> signal \<times> run_state" where
  "on_error cfg branchName e st =
     (if continueOnErrors cfg then (NextBranch, emit (Decided branchName (Failed e)) st)
      else (Throws e, emit (Decided branchName (Failed e)) st))"

text \<open>Lines 156-291. Every skip but the one of an active branch is a \<open>continue\<close>; the
  active branch, the deletion and the dry-run deletion run on to the throttle.\<close>

definition process_branch ::
  "config \<Rightarrow> int \<Rightarrow> string \<Rightarrow> branch \<Rightarrow> responses \<Rightarrow> run_state \<Rightarrow> signal \<times> run_state" where
  "process_branch cfg now defaultBranch b r st0 =
     (let st = emit (Processing (name b)) st0 in
      case evaluate cfg now defaultBranch b r of
        Skipped why \<Rightarrow>
          if why = ActiveBranch then throttle cfg (emit (Decided (name b) (Skip why)) st)
          else (NextBranch, emit (Decided (name b) (Skip why)) st)
      | ApiFailed e \<Rightarrow> on_error cfg (name b) e st
      | Deletable \<Rightarrow>
          if dryRun cfg then
            throttle cfg
              (emit (Decided (name b) DryRunDelete) (st\<lparr>processedCount := processedCount st + 1\<rparr>))
          else
            (case deleteRef r of
               Inl e \<Rightarrow> on_error cfg (name b) e (emit (DeleteRefCall (name b) False) st)
             | Inr u \<Rightarrow>
                 (let st1 = emit (DeleteRefCall (name b) True) st in
                  throttle cfg
                    (emit (Decided (name b) Delete)
                       (st1\<lparr>outputDeletedBranches := outputDeletedBranches st1 @ [name b],
                            deletedCount := deletedCount st1 + 1,
                            processedCount := processedCount st1 + 1\<rparr>)))))"

text \<open>How the loop ends: the list is exhausted, the cap check breaks out (line 153),
  or an exception leaves it (lines 147 and 283).\<close>

datatype loop_end = Finished | CapReached | Thrown js_error

definition rate_limit_error :: js_error where
  "rate_limit_error = Error ''API rate limit exceeded threshold''"

fun run_loop ::
  "config \<Rightarrow> int \<Rightarrow> string \<Rightarrow> (branch \<times> responses) list \<Rightarrow> run_state \<Rightarrow> loop_end \<times> run_state" where
  "run_loop cfg now defaultBranch [] st = (Finished, st)"
| "run_loop cfg now defaultBranch ((b, r) # rest) st =
     (if \<not> isSafeToProceedWithApiCalls (rateLimit_get r) (rateLimitThreshold cfg)
      then (Thrown rate_limit_error, st)
      else if processedCount st \<ge> maxBranchesToDelete cfg then (CapReached, st)
      else (case process_branch cfg now defaultBranch b r st of
              (Throws e, st') \<Rightarrow> (Thrown e, st')
            | (NextBranch, st') \<Rightarrow> run_loop cfg now defaultBranch rest st'))"

subsection \<open>The script (lines 35-306)\<close>

text \<open>The inputs as \<open>core.getInput\<close> returns them; a numeric input is given as the
  result of \<open>parseInt\<close>: an integer, or \<open>None\<close> for \<open>NaN\<close>. (A digit string so long
  that \<open>parseInt\<close> returns \<open>Infinity\<close> is outside the model.)\<close>

record inputs =
  stale_days :: "int option"
  skip_branches :: string
  skip_unmerged :: string
  skip_open_prs :: string
  include_unmerged_and_closed_prs :: string
  max_branches_to_delete :: "int option"
  process_throttle_ms :: "int option"
  rate_limit_threshold :: "int option"
  continue_on_errors :: string
  dry_run :: string

text \<open>The surroundings of one run: the clock read at line 69, the triggering event,
  the answer to \<open>repos.get\<close> (the default branch), and the answer to the paginated
  branch listing, each branch paired with what the remote answers while it is being
  processed.\<close>

record world =
  clock :: int
  eventName :: string
  repos_get :: "js_error + string"
  listBranches :: "js_error + (branch \<times> responses) list"

text \<open>What the run reports: the output \<open>deleted-branches\<close>, the count of the line
  "Deleted N branches.", and the message of \<open>core.setFailed\<close>.\<close>

record report =
  deleted_branches :: "string list option"
  deleted_info :: "int option"
  failed :: "string option"

text \<open>Lines 55-66: a number that is \<open>NaN\<close> or out of range throws.\<close>

definition checked :: "int option \<Rightarrow> int \<Rightarrow> string \<Rightarrow> js_error + int" where
  "checked v lowest msg =
     (case v of
        None \<Rightarrow> Inl (Error msg)
      | Some n \<Rightarrow> if n < lowest then Inl (Error msg) else Inr n)"

definition validate :: "inputs \<Rightarrow> js_error + (int \<times> int \<times> int \<times> int)" where
  "validate inp =
     (case checked (stale_days inp) 0
             ''Invalid input: stale-days must be a non-negative integer'' of
        Inl e \<Rightarrow> Inl e
      | Inr sd \<Rightarrow>
     (case checked (max_branches_to_delete inp) 1
             ''Invalid input: max-branches-to-delete must be a positive integer'' of
        Inl e \<Rightarrow> Inl e
      | Inr mx \<Rightarrow>
     (case checked (process_throttle_ms inp) 0
             ''Invalid input: process-throttle-ms must be a non-negative integer'' of
        Inl e \<Rightarrow> Inl e
      | Inr th \<Rightarrow>
     (case checked (rate_limit_threshold inp) 0
             ''Invalid input: rate-limit-threshold must be a non-negative integer'' of
        Inl e \<Rightarrow> Inl e
      | Inr rl \<Rightarrow> Inr (sd, mx, th, rl)))))"

definition make_config :: "inputs \<Rightarrow> (int \<times> int \<times> int \<times> int) \<Rightarrow> ruleset \<Rightarrow> config" where
  "make_config inp nums rs =
     (case nums of (sd, mx, th, rl) \<Rightarrow>
        \<lparr>staleDays = sd,
         rules = rs,
         skipUmerged = (\<not> (skip_unmerged inp = ''false'')),
         skipOpenPRs = (\<not> (skip_open_prs inp = ''false'')),
         includeClosedPRs = (\<not> (include_unmerged_and_closed_prs inp = ''false'')),
         maxBranchesToDelete = mx,
         processThrottleMs = th,
         rateLimitThreshold = rl,
         continueOnErrors = (continue_on_errors inp = ''true''),
         dryRun = (dry_run inp = ''true'')\<rparr>)"

text \<open>Lines 297-299: the normal end. Lines 300-306: the handler of the outer \<open>try\<close>;
  \<open>deletedCount\<close> is a count and never \<open>NaN\<close>, so the handler always sets the
  output before it fails the action.\<close>

definition completed :: "run_state \<Rightarrow> report" where
  "completed st =
     \<lparr>deleted_branches = Some (outputDeletedBranches st),
      deleted_info = Some (deletedCount st),
      failed = None\<rparr>"

definition caught :: "js_error \<Rightarrow> run_state \<Rightarrow> report" where
  "caught e st =
     \<lparr>deleted_branches = Some (outputDeletedBranches st),
      deleted_info = Some (deletedCount st),
      failed = Some (''Action failed: '' @ message e)\<rparr>"

text \<open>The whole script. The result is \<open>None\<close> only where the exclusion list leaves
  the modelled fragment of the regular expressions. The message of the constructor's
  \<open>SyntaxError\<close> is engine-specific; the model keeps its fixed beginning.\<close>

definition main :: "inputs \<Rightarrow> world \<Rightarrow> report option" where
  "main inp w =
     (case validate inp of
        Inl e \<Rightarrow> Some (caught e initial_state)
      | Inr nums \<Rightarrow>
          (case compile_exclusions (skip_branches inp) of
             OutsideFragment \<Rightarrow> None
           | RegExpThrew \<Rightarrow> Some (caught (Error ''Invalid regular expression'') initial_state)
           | Rules rs \<Rightarrow>
               (case repos_get w of
                  Inl e \<Rightarrow> Some (caught e initial_state)
                | Inr defaultBranch \<Rightarrow>
                    if eventName w = ''workflow_dispatch'' \<or> eventName w = ''schedule'' then
                      (case listBranches w of
                         Inl e \<Rightarrow> Some (caught e initial_state)
                       | Inr branches \<Rightarrow>
                           (case run_loop (make_config inp nums rs) (clock w) defaultBranch
                                   branches initial_state of
                              (Thrown e, st) \<Rightarrow> Some (caught e st)
                            | (Finished, st) \<Rightarrow> Some (completed st)
                            | (CapReached, st) \<Rightarrow> Some (completed st)))
                    else Some (completed initial_state))))"

subsection \<open>Reading the trace\<close>

text \<open>The branches whose delete-ref call returned, the branches a delete-ref call was
  made for, and the branches a dry run would have deleted, each in the order of the
  trace.\<close>

fun successful_deletes :: "event list \<Rightarrow> string list" where
  "successful_deletes [] = []"
| "successful_deletes (DeleteRefCall n ok # tr) =
     (if ok then n # successful_deletes tr else successful_deletes tr)"
| "successful_deletes (ev # tr) = successful_deletes tr"

fun delete_ref_calls :: "event list \<Rightarrow> string list" where
  "delete_ref_calls [] = []"
| "delete_ref_calls (DeleteRefCall n ok # tr) = n # delete_ref_calls tr"
| "delete_ref_calls (ev # tr) = delete_ref_calls tr"

fun would_delete :: "event list \<Rightarrow> string list" where
  "would_delete [] = []"
| "would_delete (Decided n DryRunDelete # tr) = n # would_delete tr"
| "would_delete (ev # tr) = would_delete tr"

text \<open>The two accumulators agree with each other and with the trace: the count is
  the length of the list, and the list holds exactly the branches whose delete-ref call
  returned, in that order.\<close>

definition accumulators_consistent :: "run_state \<Rightarrow> bool" where
  "accumulators_consistent st =
     (deletedCount st = int (length (outputDeletedBranches st))
      \<and> outputDeletedBranches st = successful_deletes (trace st))"

subsection \<open>Sample data\<close>

text \<open>A clock reading, a configuration with the documented defaults (and no
  exclusion pattern), and the answers of the remote for a branch whose last commit is a
  hundred days old, fully merged and without pull requests.\<close>

definition sample_now :: int where
  "sample_now = 1800000000000"

definition sample_config :: config where
  "sample_config =
     \<lparr>staleDays = 90,
      rules = \<lparr>skipBranchNames = [''main'', ''develop''], skipBranchPatternsRegex = []\<rparr>,
      skipUmerged = True,
      skipOpenPRs = True,
      includeClosedPRs = True,
      maxBranchesToDelete = 500,
      processThrottleMs = 0,
      rateLimitThreshold = 100,
      continueOnErrors = False,
      dryRun = False\<rparr>"

definition merged_old :: responses where
  "merged_old =
     \<lparr>rateLimit_get = Inr 5000,
      getCommit = Inr (sample_now - 100 * 86400000),
      pulls_list_open = Inr [],
      compareCommits = Inr 0,
      pulls_list_all = Inr [],
      deleteRef = Inr ()\<rparr>"

definition feature :: "string \<Rightarrow> branch" where
  "feature n = \<lparr>name = n, protected = False\<rparr>"

definition delete_fails :: responses where
  "delete_fails = merged_old\<lparr>deleteRef := Inl (Error ''Reference does not exist'')\<rparr>"

definition low_quota :: responses where
  "low_quota = merged_old\<lparr>rateLimit_get := Inr 42\<rparr>"

definition sample_inputs :: inputs where
  "sample_inputs =
     \<lparr>stale_days = Some 90,
      skip_branches = ''main, develop'',
      skip_unmerged = ''true'',
      skip_open_prs = ''true'',
      include_unmerged_and_closed_prs = ''true'',
      max_branches_to_delete = Some 500,
      process_throttle_ms = Some 0,
      rate_limit_threshold = Some 100,
      continue_on_errors = ''false'',
      dry_run = ''false''\<rparr>"

definition sample_world :: "(branch \<times> responses) list \<Rightarrow> world" where
  "sample_world bs =
     \<lparr>clock = sample_now, eventName = ''schedule'', repos_get = Inr ''main'',
      listBranches = Inr bs\<rparr>"

definition dry_config :: config where
  "dry_config = sample_config\<lparr>dryRun := True, maxBranchesToDelete := 2\<rparr>"

text \<open>Pull requests and further answers of the remote: a branch three commits ahead
  with an open pull request, one with only a closed, unmerged pull request, a fully
  merged one with an open pull request, and one whose last commit is exactly ninety
  days old. Further configurations: every optional check switched off, and a throttle
  of one second.\<close>

definition open_pr :: pull_request where
  "open_pr = \<lparr>state = ''open'', merged_at = None\<rparr>"

definition closed_unmerged_pr :: pull_request where
  "closed_unmerged_pr = \<lparr>state = ''closed'', merged_at = None\<rparr>"

definition ahead_with_open_pr :: responses where
  "ahead_with_open_pr =
     merged_old\<lparr>compareCommits := Inr 3, pulls_list_open := Inr [open_pr],
                pulls_list_all := Inr [closed_unmerged_pr, open_pr]\<rparr>"

definition ahead_with_closed_pr :: responses where
  "ahead_with_closed_pr =
     merged_old\<lparr>compareCommits := Inr 3, pulls_list_open := Inr [],
                pulls_list_all := Inr [closed_unmerged_pr]\<rparr>"

definition merged_with_open_pr :: responses where
  "merged_with_open_pr =
     merged_old\<lparr>pulls_list_open := Inr [open_pr], pulls_list_all := Inr [open_pr]\<rparr>"

definition exactly_ninety_days :: responses where
  "exactly_ninety_days = merged_old\<lparr>getCommit := Inr (sample_now - 90 * 86400000)\<rparr>"

definition delete_everything_config :: config where
  "delete_everything_config = sample_config\<lparr>skipUmerged := False, skipOpenPRs := False\<rparr>"

definition throttled_config :: config where
  "throttled_config = sample_config\<lparr>processThrottleMs := 1000\<rparr>"

subsection \<open>The matching that the specification describes\<close>

text \<open>Section 4.1 of the specification: in an exclusion pattern each \<open>*\<close> stands
  for zero or more arbitrary characters, every other character stands for itself, and
  the pattern has to match the entire branch name. This definition follows the
  specification, not the code; the code's matching is \<open>isExcluded\<close> above.\<close>

fun spec_glob_matches :: "string \<Rightarrow> string \<Rightarrow> bool" where
  "spec_glob_matches [] s = (s = [])"
| "spec_glob_matches (p # ps) [] = (p = CHR ''*'' \<and> spec_glob_matches ps [])"
| "spec_glob_matches (p # ps) (c # cs) =
     (if p = CHR ''*'' then spec_glob_matches ps (c # cs) \<or> spec_glob_matches (p # ps) cs
      else p = c \<and> spec_glob_matches ps cs)"

text \<open>The characters that mean themselves both in a glob and in a regular
  expression of the modelled fragment (the star apart, which is the wildcard), and the
  terms a glob of such characters stands for.\<close>

definition is_plain_char :: "char \<Rightarrow> bool" where
  "is_plain_char c =
     (\<not> is_unmodelled_char c \<and> c \<noteq> CHR ''^'' \<and> c \<noteq> CHR ''$'' \<and> c \<noteq> CHR ''.''
      \<and> c \<noteq> CHR ''+'' \<and> c \<noteq> CHR ''?'')"

fun glob_terms :: "string \<Rightarrow> rterm list" where
  "glob_terms [] = []"
| "glob_terms (c # cs) =
     (if c = CHR ''*'' then Repeated Dot ZeroOrMore False # glob_terms cs
      else Single (PatternChar c) # glob_terms cs)"

section \<open>Properties\<close>

subsection \<open>The staleness test\<close>

text \<open>
  C6 (as amended). For a committer date and a clock that are valid time values and a
  validated \<open>staleDays\<close>, the staleness test is true exactly when
  \<open>committerDate < now - staleDays * 86400000\<close> in exact millisecond arithmetic, with
  no rounding to days. With \<open>staleDays = 0\<close> a commit is stale exactly when its
  timestamp is strictly earlier than \<open>now\<close>; a commit dated at or after \<open>now\<close> is
  not stale.
\<close>

theorem isStale_exact_milliseconds:
  assumes "\<bar>committerDate\<bar> \<le> max_time_value"
    and "\<bar>now\<bar> \<le> max_time_value"
    and "0 \<le> days"
  shows "(isStale committerDate now days \<longleftrightarrow> committerDate < now - days * 86400000)
       \<and> (isStale committerDate now 0 \<longleftrightarrow> committerDate < now)"
proof -
  have "now - days * 86400000 \<le> max_time_value"
    using assms(2,3) by (simp add: abs_le_iff)
  with assms(1,2) show ?thesis
    by (auto simp: isStale_def staleThreshold_def new_Date_def abs_le_iff)
qed

theorem isStale_exact_milliseconds_witness:
  "isStale 1700000000000 1800000000000 90 \<and> \<not> isStale 1799999999999 1800000000000 90
   \<and> isStale 1799999999999 1800000000000 0"
  using isStale_exact_milliseconds [of 1700000000000 1800000000000 90]
    isStale_exact_milliseconds [of 1799999999999 1800000000000 90]
  by (simp add: max_time_value_def)

text \<open>The claim as stated fails for a commit dated after the clock reading: with
  \<open>staleDays = 0\<close> its timestamp differs from \<open>now\<close>, and it is not stale.\<close>

theorem isStale_zero_days_future_commit:
  "(1800000000001 :: int) \<noteq> 1800000000000 \<and> \<not> isStale 1800000000001 1800000000000 0"
  by (simp add: isStale_def staleThreshold_def new_Date_def max_time_value_def)

subsection \<open>One pass and the whole loop\<close>

lemma successful_deletes_append:
  "successful_deletes (xs @ ys) = successful_deletes xs @ successful_deletes ys"
  by (induction xs rule: successful_deletes.induct) auto

lemma delete_ref_calls_append:
  "delete_ref_calls (xs @ ys) = delete_ref_calls xs @ delete_ref_calls ys"
  by (induction xs rule: delete_ref_calls.induct) auto

lemma would_delete_append:
  "would_delete (xs @ ys) = would_delete xs @ would_delete ys"
  by (induction xs rule: would_delete.induct) auto

lemma process_branch_effect:
  assumes "process_branch cfg now db b r st = (sg, st')"
  shows "outputDeletedBranches st' =
           outputDeletedBranches st @ (if decide cfg now db b r = Delete then [name b] else [])"
    and "deletedCount st' = deletedCount st + (if decide cfg now db b r = Delete then 1 else 0)"
    and "processedCount st' = processedCount st +
           (if decide cfg now db b r = Delete \<or> decide cfg now db b r = DryRunDelete then 1 else 0)"
    and "successful_deletes (trace st') =
           successful_deletes (trace st) @ (if decide cfg now db b r = Delete then [name b] else [])"
    and "would_delete (trace st') =
           would_delete (trace st) @ (if decide cfg now db b r = DryRunDelete then [name b] else [])"
    and "sg = (case decide cfg now db b r of
                 Failed e \<Rightarrow> if continueOnErrors cfg then NextBranch else Throws e
               | _ \<Rightarrow> NextBranch)"
  using assms
  by (auto simp: process_branch_def decide_def throttle_def on_error_def emit_def Let_def
      successful_deletes_append would_delete_append
      split: verdict.splits sum.splits if_splits)

lemma process_branch_delete_calls:
  assumes "process_branch cfg now db b r st = (sg, st')"
  shows "delete_ref_calls (trace st') =
           delete_ref_calls (trace st) @
             (if evaluate cfg now db b r = Deletable \<and> \<not> dryRun cfg then [name b] else [])"
  using assms
  by (auto simp: process_branch_def throttle_def on_error_def emit_def Let_def
      delete_ref_calls_append
      split: verdict.splits sum.splits if_splits)

lemma process_branch_logs_decision:
  "Decided (name b) (decide cfg now db b r)
     \<in> set (trace (snd (process_branch cfg now db b r st)))"
  by (auto simp: process_branch_def decide_def throttle_def on_error_def emit_def Let_def
      split: verdict.splits sum.splits)

lemma process_branch_consistent:
  assumes "accumulators_consistent st"
  shows "accumulators_consistent (snd (process_branch cfg now db b r st))"
proof -
  obtain sg st' where eq: "process_branch cfg now db b r st = (sg, st')"
    by (cases "process_branch cfg now db b r st")
  from process_branch_effect(1,2,4) [OF eq] assms show ?thesis
    by (simp add: eq accumulators_consistent_def)
qed

lemma run_loop_consistent:
  "accumulators_consistent st \<Longrightarrow> accumulators_consistent (snd (run_loop cfg now db bs st))"
proof (induction bs arbitrary: st)
  case Nil
  then show ?case by simp
next
  case (Cons br bs)
  obtain b r where br: "br = (b, r)" by (cases br)
  obtain sg st' where eq: "process_branch cfg now db b r st = (sg, st')"
    by (cases "process_branch cfg now db b r st")
  have c: "accumulators_consistent st'"
    using process_branch_consistent [OF Cons.prems, of cfg now db b r] by (simp add: eq)
  show ?case
    using Cons.prems Cons.IH [OF c] c
    by (cases sg) (simp_all add: br eq)
qed

lemma delete_failure_leaves_accumulators:
  assumes "deleteRef r = Inl e"
  shows "outputDeletedBranches (snd (process_branch cfg now db b r st)) = outputDeletedBranches st
       \<and> deletedCount (snd (process_branch cfg now db b r st)) = deletedCount st"
proof -
  obtain sg st' where eq: "process_branch cfg now db b r st = (sg, st')"
    by (cases "process_branch cfg now db b r st")
  have "decide cfg now db b r \<noteq> Delete"
    using assms by (auto simp: decide_def split: verdict.splits)
  with process_branch_effect(1,2) [OF eq] show ?thesis by (simp add: eq)
qed

lemma run_loop_append:
  "run_loop cfg now db pre st0 = (Finished, st) \<Longrightarrow>
   run_loop cfg now db (pre @ rest) st0 = run_loop cfg now db rest st"
proof (induction pre arbitrary: st0)
  case Nil
  then show ?case by simp
next
  case (Cons br pre)
  obtain b r where br: "br = (b, r)" by (cases br)
  obtain sg st' where eq: "process_branch cfg now db b r st0 = (sg, st')"
    by (cases "process_branch cfg now db b r st0")
  from Cons.prems show ?case
    by (cases sg) (auto simp: br eq intro: Cons.IH split: if_splits)
qed

lemma run_loop_finished_output:
  "run_loop cfg now db bs st0 = (Finished, st) \<Longrightarrow>
   outputDeletedBranches st =
     outputDeletedBranches st0 @
       map (name \<circ> fst) (filter (\<lambda>(b, r). decide cfg now db b r = Delete) bs)"
proof (induction bs arbitrary: st0)
  case Nil
  then show ?case by simp
next
  case (Cons br bs)
  obtain b r where br: "br = (b, r)" by (cases br)
  obtain sg st' where eq: "process_branch cfg now db b r st0 = (sg, st')"
    by (cases "process_branch cfg now db b r st0")
  from Cons.prems have rest: "run_loop cfg now db bs st' = (Finished, st)"
    by (cases sg) (auto simp: br eq split: if_splits)
  show ?case
    using Cons.IH [OF rest] process_branch_effect(1) [OF eq]
    by (simp add: br)
qed

subsection \<open>The accumulators\<close>

text \<open>
  C10. At every point of a run the deletion count equals the length of the
  deleted-branches list, and the list holds exactly the branches whose delete-ref call
  returned, in the order of the calls: the property holds at the start, every pass of
  the loop body keeps it, and so does the whole loop. A pass whose delete-ref call
  throws leaves both the list and the count as they were.
\<close>

theorem accumulators_consistent_throughout:
  "accumulators_consistent initial_state
   \<and> (accumulators_consistent st \<longrightarrow>
        accumulators_consistent (snd (process_branch cfg now db b r st)))
   \<and> (accumulators_consistent st \<longrightarrow>
        accumulators_consistent (snd (run_loop cfg now db bs st)))
   \<and> accumulators_consistent (snd (run_loop cfg now db bs initial_state))
   \<and> (\<forall>e. deleteRef r = Inl e \<longrightarrow>
        outputDeletedBranches (snd (process_branch cfg now db b r st)) = outputDeletedBranches st
        \<and> deletedCount (snd (process_branch cfg now db b r st)) = deletedCount st)"
proof -
  have init: "accumulators_consistent initial_state"
    by (simp add: accumulators_consistent_def initial_state_def)
  show ?thesis
    using init process_branch_consistent run_loop_consistent delete_failure_leaves_accumulators
    by blast
qed

theorem accumulators_consistent_throughout_witness:
  "accumulators_consistent (snd (process_branch sample_config sample_now ''main'' (feature ''old-1'') delete_fails initial_state))
   \<and> accumulators_consistent (snd (run_loop sample_config sample_now ''main''
         [(feature ''old-1'', merged_old), (feature ''old-2'', delete_fails)] initial_state))
   \<and> outputDeletedBranches (snd (process_branch sample_config sample_now ''main'' (feature ''old-1'') delete_fails initial_state)) = []
   \<and> deletedCount (snd (process_branch sample_config sample_now ''main'' (feature ''old-1'') delete_fails initial_state)) = 0"
proof -
  have c: "accumulators_consistent initial_state"
    by (simp add: accumulators_consistent_def initial_state_def)
  have h: "deleteRef delete_fails = Inl (Error ''Reference does not exist'')"
    by (simp add: delete_fails_def)
  have i: "outputDeletedBranches initial_state = []" "deletedCount initial_state = 0"
    by (simp_all add: initial_state_def)
  show ?thesis
    using accumulators_consistent_throughout [of initial_state sample_config sample_now "''main''"
      "feature ''old-1''" delete_fails
      "[(feature ''old-1'', merged_old), (feature ''old-2'', delete_fails)]"] c h i
    by simp
qed


subsection \<open>Abort by the rate-limit guard\<close>

lemma main_loop_result:
  assumes "validate inp = Inr nums"
    and "compile_exclusions (skip_branches inp) = Rules rs"
    and "repos_get w = Inr db"
    and "eventName w = ''workflow_dispatch'' \<or> eventName w = ''schedule''"
    and "listBranches w = Inr bs"
  shows "main inp w =
      (case run_loop (make_config inp nums rs) (clock w) db bs initial_state of
         (Thrown e, st) \<Rightarrow> Some (caught e st)
       | (Finished, st) \<Rightarrow> Some (completed st)
       | (CapReached, st) \<Rightarrow> Some (completed st))"
  using assms by (auto simp: main_def)

lemma main_reports_accumulators:
  assumes "main inp w = Some rep"
  shows "(deleted_branches rep = Some [] \<and> deleted_info rep = Some 0)
       \<or> (\<exists>cfg db bs le st. listBranches w = Inr bs
            \<and> run_loop cfg (clock w) db bs initial_state = (le, st)
            \<and> deleted_branches rep = Some (outputDeletedBranches st)
            \<and> deleted_info rep = Some (deletedCount st))"
proof (cases "\<exists>nums rs db bs. validate inp = Inr nums
      \<and> compile_exclusions (skip_branches inp) = Rules rs \<and> repos_get w = Inr db
      \<and> (eventName w = ''workflow_dispatch'' \<or> eventName w = ''schedule'')
      \<and> listBranches w = Inr bs")
  case True
  then obtain nums rs db bs where h: "validate inp = Inr nums"
      "compile_exclusions (skip_branches inp) = Rules rs" "repos_get w = Inr db"
      "eventName w = ''workflow_dispatch'' \<or> eventName w = ''schedule''"
      "listBranches w = Inr bs"
    by blast
  obtain le st where run: "run_loop (make_config inp nums rs) (clock w) db bs initial_state = (le, st)"
    by (cases "run_loop (make_config inp nums rs) (clock w) db bs initial_state")
  have "deleted_branches rep = Some (outputDeletedBranches st) \<and> deleted_info rep = Some (deletedCount st)"
    using assms main_loop_result [OF h] run
    by (cases le) (auto simp: caught_def completed_def)
  with h(5) run show ?thesis by blast
next
  case False
  with assms have "deleted_branches rep = Some [] \<and> deleted_info rep = Some 0"
    by (auto simp: main_def caught_def completed_def initial_state_def
        split: sum.splits compile_outcome.splits if_splits)
  then show ?thesis by blast
qed

text \<open>
  C1. Let the branch listing be \<open>pre @ (b, r) # post\<close>, let the loop run through
  \<open>pre\<close> to its end, and let the rate-limit guard refuse at \<open>b\<close>. Then the loop
  leaves with the rate-limit error in the state reached after \<open>pre\<close>, and the script
  reports the failure "API rate limit exceeded threshold" together with exactly the
  names of the branches of \<open>pre\<close> that were deleted, in processing order, and their
  number; nothing of \<open>b\<close> or \<open>post\<close> enters the report. The same holds for any
  exception that leaves the loop: the script reports the list and the count of the
  state the loop was left in, with the message of the exception. Whatever way the
  script ends, it reports the accumulators as they stand: those of the state the loop
  ended in, or the empty list and zero when it ends before the loop.
\<close>

theorem rate_limit_abort_reports_deleted_so_far:
  assumes "validate inp = Inr nums"
    and "compile_exclusions (skip_branches inp) = Rules rs"
    and "repos_get w = Inr db"
    and "eventName w = ''workflow_dispatch'' \<or> eventName w = ''schedule''"
    and "listBranches w = Inr (pre @ (b, r) # post)"
    and "cfg = make_config inp nums rs"
    and "fst (run_loop cfg (clock w) db pre initial_state) = Finished"
    and "\<not> isSafeToProceedWithApiCalls (rateLimit_get r) (rateLimitThreshold cfg)"
  shows "run_loop cfg (clock w) db (pre @ (b, r) # post) initial_state =
           (Thrown rate_limit_error, snd (run_loop cfg (clock w) db pre initial_state))
       \<and> main inp w = Some
           \<lparr>deleted_branches =
              Some (map (name \<circ> fst) (filter (\<lambda>(b', r'). decide cfg (clock w) db b' r' = Delete) pre)),
            deleted_info =
              Some (int (length (filter (\<lambda>(b', r'). decide cfg (clock w) db b' r' = Delete) pre))),
            failed = Some ''Action failed: API rate limit exceeded threshold''\<rparr>
       \<and> (\<forall>w' db' bs e st.
            repos_get w' = Inr db'
            \<and> (eventName w' = ''workflow_dispatch'' \<or> eventName w' = ''schedule'')
            \<and> listBranches w' = Inr bs
            \<and> run_loop cfg (clock w') db' bs initial_state = (Thrown e, st) \<longrightarrow>
            main inp w' = Some
              \<lparr>deleted_branches = Some (outputDeletedBranches st),
               deleted_info = Some (deletedCount st),
               failed = Some (''Action failed: '' @ message e)\<rparr>)
       \<and> (\<forall>inp' w' rep. main inp' w' = Some rep \<longrightarrow>
            (deleted_branches rep = Some [] \<and> deleted_info rep = Some 0)
            \<or> (\<exists>cfg' db' bs le st. listBranches w' = Inr bs
                 \<and> run_loop cfg' (clock w') db' bs initial_state = (le, st)
                 \<and> deleted_branches rep = Some (outputDeletedBranches st)
                 \<and> deleted_info rep = Some (deletedCount st)))"
proof -
  have any: "\<forall>w' db' bs e st.
            repos_get w' = Inr db'
            \<and> (eventName w' = ''workflow_dispatch'' \<or> eventName w' = ''schedule'')
            \<and> listBranches w' = Inr bs
            \<and> run_loop cfg (clock w') db' bs initial_state = (Thrown e, st) \<longrightarrow>
            main inp w' = Some
              \<lparr>deleted_branches = Some (outputDeletedBranches st),
               deleted_info = Some (deletedCount st),
               failed = Some (''Action failed: '' @ message e)\<rparr>"
    using main_loop_result [OF assms(1,2)] by (auto simp: caught_def assms(6))
  obtain st where pre: "run_loop cfg (clock w) db pre initial_state = (Finished, st)"
    using assms(7) by (cases "run_loop cfg (clock w) db pre initial_state") simp
  have abort: "run_loop cfg (clock w) db (pre @ (b, r) # post) initial_state =
      (Thrown rate_limit_error, st)"
    using run_loop_append [OF pre, of "(b, r) # post"] assms(8) by simp
  have out: "outputDeletedBranches st =
      map (name \<circ> fst) (filter (\<lambda>(b', r'). decide cfg (clock w) db b' r' = Delete) pre)"
    using run_loop_finished_output [OF pre] by (simp add: initial_state_def)
  have "accumulators_consistent st"
    using run_loop_consistent [of initial_state cfg "clock w" db pre] pre
    by (simp add: accumulators_consistent_def initial_state_def)
  then have cnt: "deletedCount st =
      int (length (filter (\<lambda>(b', r'). decide cfg (clock w) db b' r' = Delete) pre))"
    by (simp add: accumulators_consistent_def out)
  have m: "main inp w = Some (caught rate_limit_error st)"
    using main_loop_result [OF assms(1-5)] abort assms(6) by simp
  have "main inp w = Some
           \<lparr>deleted_branches =
              Some (map (name \<circ> fst) (filter (\<lambda>(b', r'). decide cfg (clock w) db b' r' = Delete) pre)),
            deleted_info =
              Some (int (length (filter (\<lambda>(b', r'). decide cfg (clock w) db b' r' = Delete) pre))),
            failed = Some ''Action failed: API rate limit exceeded threshold''\<rparr>"
    using m out cnt by (simp add: caught_def rate_limit_error_def)
  with abort pre any main_reports_accumulators show ?thesis
    by simp
qed

lemma sample_inputs_valid:
  "validate sample_inputs = Inr (90, 500, 0, 100)"
  by (simp add: validate_def checked_def sample_inputs_def)

lemma sample_inputs_rules:
  "compile_exclusions (skip_branches sample_inputs) = Rules (rules sample_config)"
  by (simp add: sample_inputs_def sample_config_def compile_exclusions_def exclusions_def
      trim_def is_js_space_def includes_star_def)

lemma sample_inputs_config:
  "make_config sample_inputs (90, 500, 0, 100) (rules sample_config) = sample_config"
  by (simp add: make_config_def sample_inputs_def sample_config_def)

theorem rate_limit_abort_reports_deleted_so_far_witness:
  "main sample_inputs
      (sample_world [(feature ''old-1'', merged_old), (feature ''main'', merged_old),
                     (feature ''old-2'', low_quota), (feature ''old-3'', merged_old)])
   = Some \<lparr>deleted_branches = Some [''old-1''], deleted_info = Some 1,
            failed = Some ''Action failed: API rate limit exceeded threshold''\<rparr>"
proof -
  let ?pre = "[(feature ''old-1'', merged_old), (feature ''main'', merged_old)]"
  let ?w = "sample_world [(feature ''old-1'', merged_old), (feature ''main'', merged_old),
                     (feature ''old-2'', low_quota), (feature ''old-3'', merged_old)]"
  have w: "repos_get ?w = Inr ''main''"
    "eventName ?w = ''workflow_dispatch'' \<or> eventName ?w = ''schedule''"
    "listBranches ?w = Inr (?pre @ (feature ''old-2'', low_quota) # [(feature ''old-3'', merged_old)])"
    and clk: "clock ?w = sample_now"
    by (simp_all add: sample_world_def)
  have d1: "decide sample_config sample_now ''main'' (feature ''old-1'') merged_old = Delete"
    by (simp add: sample_config_def sample_now_def merged_old_def feature_def
        decide_def evaluate_def isExcluded_def
        isStale_def staleThreshold_def new_Date_def max_time_value_def open_pr_gate_def
        unmerged_gate_def)
  have d2: "decide sample_config sample_now ''main'' (feature ''main'') merged_old = Skip DefaultBranch"
    by (simp add: feature_def decide_def evaluate_def)
  have fin: "fst (run_loop sample_config (clock ?w) ''main'' ?pre initial_state) = Finished"
    by (simp add: clk sample_config_def sample_now_def merged_old_def feature_def initial_state_def
        isSafeToProceedWithApiCalls_def process_branch_def evaluate_def isExcluded_def
        isStale_def staleThreshold_def new_Date_def max_time_value_def open_pr_gate_def
        unmerged_gate_def throttle_def emit_def)
  have low: "\<not> isSafeToProceedWithApiCalls (rateLimit_get low_quota) (rateLimitThreshold sample_config)"
    by (simp add: low_quota_def merged_old_def sample_config_def isSafeToProceedWithApiCalls_def)
  have f: "filter (\<lambda>(b', r'). decide sample_config sample_now ''main'' b' r' = Delete) ?pre
      = [(feature ''old-1'', merged_old)]"
    by (simp add: d1 d2)
  have n: "name (feature ''old-1'') = ''old-1''"
    by (simp add: feature_def)
  note t = rate_limit_abort_reports_deleted_so_far [OF sample_inputs_valid sample_inputs_rules
        w(1) w(2) w(3) sample_inputs_config [symmetric] fin low, unfolded clk f]
  from t have "main sample_inputs ?w = Some
           \<lparr>deleted_branches = Some (map (name \<circ> fst) [(feature ''old-1'', merged_old)]),
            deleted_info = Some (int (length [(feature ''old-1'', merged_old)])),
            failed = Some ''Action failed: API rate limit exceeded threshold''\<rparr>"
    by (elim conjE)
  then show ?thesis by (simp add: n)
qed

subsection \<open>Dry run\<close>

lemma dry_run_never_deletes:
  "dryRun cfg \<Longrightarrow> decide cfg now db b r \<noteq> Delete"
  by (auto simp: decide_def split: verdict.splits)

lemma dry_run_pass:
  assumes "dryRun cfg" and "process_branch cfg now db b r st = (sg, st')"
  shows "delete_ref_calls (trace st') = delete_ref_calls (trace st)
       \<and> outputDeletedBranches st' = outputDeletedBranches st
       \<and> deletedCount st' = deletedCount st
       \<and> processedCount st' - int (length (would_delete (trace st')))
           = processedCount st - int (length (would_delete (trace st)))"
  using process_branch_delete_calls [OF assms(2)] process_branch_effect(1,2,3,5) [OF assms(2)]
    dry_run_never_deletes [OF assms(1), of now db b r]
  by (simp add: assms(1))

lemma dry_run_loop:
  assumes "dryRun cfg"
  shows "run_loop cfg now db bs st = (le, st') \<Longrightarrow>
         delete_ref_calls (trace st') = delete_ref_calls (trace st)
       \<and> outputDeletedBranches st' = outputDeletedBranches st
       \<and> deletedCount st' = deletedCount st
       \<and> processedCount st' - int (length (would_delete (trace st')))
           = processedCount st - int (length (would_delete (trace st)))"
proof (induction bs arbitrary: st)
  case Nil
  then show ?case by simp
next
  case (Cons br bs)
  obtain b r where br: "br = (b, r)" by (cases br)
  obtain sg st1 where eq: "process_branch cfg now db b r st = (sg, st1)"
    by (cases "process_branch cfg now db b r st")
  note p = dry_run_pass [OF assms eq]
  show ?case
  proof (cases "\<not> isSafeToProceedWithApiCalls (rateLimit_get r) (rateLimitThreshold cfg)
       \<or> processedCount st \<ge> maxBranchesToDelete cfg")
    case True
    with Cons.prems show ?thesis by (auto simp: br split: if_splits)
  next
    case False
    show ?thesis
    proof (cases sg)
      case NextBranch
      with False Cons.prems have "run_loop cfg now db bs st1 = (le, st')"
        by (simp add: br eq)
      from Cons.IH [OF this] p show ?thesis by simp
    next
      case (Throws e)
      with False Cons.prems have "st' = st1" by (simp add: br eq)
      with p show ?thesis by simp
    qed
  qed
qed

lemma cap_bounds_counter:
  "run_loop cfg now db bs st = (le, st') \<Longrightarrow>
   processedCount st' \<le> max (processedCount st) (maxBranchesToDelete cfg)"
proof (induction bs arbitrary: st)
  case Nil
  then show ?case by simp
next
  case (Cons br bs)
  obtain b r where br: "br = (b, r)" by (cases br)
  obtain sg st1 where eq: "process_branch cfg now db b r st = (sg, st1)"
    by (cases "process_branch cfg now db b r st")
  have step: "processedCount st1 \<le> processedCount st + 1"
    using process_branch_effect(3) [OF eq] by simp
  show ?case
  proof (cases "\<not> isSafeToProceedWithApiCalls (rateLimit_get r) (rateLimitThreshold cfg)
       \<or> processedCount st \<ge> maxBranchesToDelete cfg")
    case True
    with Cons.prems show ?thesis by (auto simp: br split: if_splits)
  next
    case False
    show ?thesis
    proof (cases sg)
      case NextBranch
      with False Cons.prems have "run_loop cfg now db bs st1 = (le, st')"
        by (simp add: br eq)
      from Cons.IH [OF this] step False show ?thesis by simp
    next
      case (Throws e)
      with False Cons.prems have "st' = st1" by (simp add: br eq)
      with step False show ?thesis by simp
    qed
  qed
qed

text \<open>
  C4. In a run with \<open>dryRun\<close> set (and a validated cap), no delete-ref call is made
  for any branch, the deleted-branches list stays empty and the deletion count stays 0.
  The candidate counter still advances: it ends as the number of branches the run
  would have deleted, a pass over a branch found deletable adds one to it, and it
  never exceeds the cap. Once the counter has reached the cap, the next pass of the
  loop processes no branch: the loop stops there with the state unchanged.
\<close>

theorem dry_run_deletes_nothing_but_counts:
  assumes "dryRun cfg" and "0 < maxBranchesToDelete cfg"
  shows "delete_ref_calls (trace (snd (run_loop cfg now db bs initial_state))) = []
       \<and> outputDeletedBranches (snd (run_loop cfg now db bs initial_state)) = []
       \<and> deletedCount (snd (run_loop cfg now db bs initial_state)) = 0
       \<and> processedCount (snd (run_loop cfg now db bs initial_state))
           = int (length (would_delete (trace (snd (run_loop cfg now db bs initial_state)))))
       \<and> processedCount (snd (run_loop cfg now db bs initial_state)) \<le> maxBranchesToDelete cfg
       \<and> (evaluate cfg now db b r = Deletable \<longrightarrow>
            decide cfg now db b r = DryRunDelete
            \<and> processedCount (snd (process_branch cfg now db b r st)) = processedCount st + 1)
       \<and> (processedCount st \<ge> maxBranchesToDelete cfg \<longrightarrow>
            run_loop cfg now db ((b, r) # rest) st =
              (if isSafeToProceedWithApiCalls (rateLimit_get r) (rateLimitThreshold cfg)
               then CapReached else Thrown rate_limit_error, st))"
proof -
  obtain le st' where run: "run_loop cfg now db bs initial_state = (le, st')"
    by (cases "run_loop cfg now db bs initial_state")
  have a: "delete_ref_calls (trace st') = [] \<and> outputDeletedBranches st' = []
      \<and> deletedCount st' = 0 \<and> processedCount st' = int (length (would_delete (trace st')))"
    using dry_run_loop [OF assms(1) run] by (simp add: initial_state_def)
  have b: "processedCount st' \<le> maxBranchesToDelete cfg"
    using cap_bounds_counter [OF run] assms(2) by (simp add: initial_state_def)
  have c: "evaluate cfg now db b r = Deletable \<longrightarrow>
            decide cfg now db b r = DryRunDelete
            \<and> processedCount (snd (process_branch cfg now db b r st)) = processedCount st + 1"
  proof
    assume ev: "evaluate cfg now db b r = Deletable"
    then have d: "decide cfg now db b r = DryRunDelete"
      by (simp add: decide_def assms(1))
    obtain sg st1 where eq: "process_branch cfg now db b r st = (sg, st1)"
      by (cases "process_branch cfg now db b r st")
    from process_branch_effect(3) [OF eq] d
    show "decide cfg now db b r = DryRunDelete
            \<and> processedCount (snd (process_branch cfg now db b r st)) = processedCount st + 1"
      by (simp add: eq)
  qed
  have d: "processedCount st \<ge> maxBranchesToDelete cfg \<longrightarrow>
            run_loop cfg now db ((b, r) # rest) st =
              (if isSafeToProceedWithApiCalls (rateLimit_get r) (rateLimitThreshold cfg)
               then CapReached else Thrown rate_limit_error, st)"
    by simp
  from a b c d show ?thesis by (simp add: run)
qed

theorem dry_run_deletes_nothing_but_counts_witness:
  "delete_ref_calls (trace (snd (run_loop dry_config sample_now ''main''
      [(feature ''old-1'', merged_old), (feature ''main'', merged_old),
       (feature ''old-2'', merged_old), (feature ''old-3'', merged_old)] initial_state))) = []
   \<and> outputDeletedBranches (snd (run_loop dry_config sample_now ''main''
      [(feature ''old-1'', merged_old), (feature ''main'', merged_old),
       (feature ''old-2'', merged_old), (feature ''old-3'', merged_old)] initial_state)) = []
   \<and> processedCount (snd (run_loop dry_config sample_now ''main''
      [(feature ''old-1'', merged_old), (feature ''main'', merged_old),
       (feature ''old-2'', merged_old), (feature ''old-3'', merged_old)] initial_state)) = 2
   \<and> fst (run_loop dry_config sample_now ''main''
      [(feature ''old-1'', merged_old), (feature ''main'', merged_old),
       (feature ''old-2'', merged_old), (feature ''old-3'', merged_old)] initial_state) = CapReached"
proof -
  let ?bs = "[(feature ''old-1'', merged_old), (feature ''main'', merged_old),
       (feature ''old-2'', merged_old), (feature ''old-3'', merged_old)]"
  have dr: "dryRun dry_config" and mx: "0 < maxBranchesToDelete dry_config"
    by (simp_all add: dry_config_def sample_config_def)
  have run: "run_loop dry_config sample_now ''main'' ?bs initial_state =
      (CapReached,
       \<lparr>outputDeletedBranches = [], deletedCount = 0, processedCount = 2,
        trace = [Processing ''old-1'', Decided ''old-1'' DryRunDelete,
                 Processing ''main'', Decided ''main'' (Skip DefaultBranch),
                 Processing ''old-2'', Decided ''old-2'' DryRunDelete]\<rparr>)"
    by (simp add: dry_config_def sample_config_def sample_now_def merged_old_def feature_def
        initial_state_def isSafeToProceedWithApiCalls_def process_branch_def evaluate_def
        isExcluded_def isStale_def staleThreshold_def new_Date_def max_time_value_def
        open_pr_gate_def unmerged_gate_def throttle_def emit_def)
  from dry_run_deletes_nothing_but_counts [OF dr mx, of sample_now "''main''" ?bs] run
  show ?thesis by simp
qed

subsection \<open>Unfolding the model on sample data\<close>

lemmas sample_defs =
  sample_config_def sample_now_def merged_old_def feature_def initial_state_def

lemmas pipeline_defs =
  isSafeToProceedWithApiCalls_def process_branch_def decide_def evaluate_def
  isExcluded_def isStale_def staleThreshold_def new_Date_def max_time_value_def
  open_pr_gate_def unmerged_gate_def throttle_def on_error_def emit_def
  hasOpenPRs_def hasClosedUnmergedPRs_def

lemmas regexp_defs =
  compile_exclusions_def exclusions_def trim_def is_js_space_def includes_star_def
  pattern_source_def RegExp_new_def is_unmodelled_char_def repeat_of_def RegExp_test_def

subsection \<open>Open pull requests\<close>

lemma process_branch_skip:
  assumes "decide cfg now db b r = Skip why"
  shows "outputDeletedBranches (snd (process_branch cfg now db b r st)) = outputDeletedBranches st
       \<and> deletedCount (snd (process_branch cfg now db b r st)) = deletedCount st
       \<and> delete_ref_calls (trace (snd (process_branch cfg now db b r st)))
           = delete_ref_calls (trace st)"
proof -
  obtain sg st' where eq: "process_branch cfg now db b r st = (sg, st')"
    by (cases "process_branch cfg now db b r st")
  have "evaluate cfg now db b r \<noteq> Deletable"
    using assms by (auto simp: decide_def split: if_splits sum.splits)
  with process_branch_effect(1,2) [OF eq] process_branch_delete_calls [OF eq] assms
  show ?thesis by (simp add: eq)
qed

text \<open>
  C2 (as amended). Take a branch that is not the default branch, not protected and not
  excluded, whose last commit is stale, whose ahead-by count is positive and which has
  an open pull request (the open-state query returns one, and so does the all-states
  query). Provided \<open>skipOpenPRs\<close> or \<open>skipUmerged\<close> is set, the decision is a skip,
  for either value of \<open>includeClosedPRs\<close>: the pass makes no delete-ref call and
  leaves the deleted-branches list and the count unchanged.
\<close>

theorem open_pr_branch_is_skipped:
  assumes "name b \<noteq> db" and "\<not> protected b" and "\<not> isExcluded (rules cfg) (name b)"
    and "getCommit r = Inr committed" and "isStale committed now (staleDays cfg)"
    and "compareCommits r = Inr ahead" and "0 < ahead"
    and "pulls_list_open r = Inr open_prs" and "open_prs \<noteq> []"
    and "pulls_list_all r = Inr all_prs" and "hasOpenPRs all_prs"
    and "skipOpenPRs cfg \<or> skipUmerged cfg"
  shows "decide cfg now db b r =
           Skip (if skipOpenPRs cfg then OpenPullRequests
                 else if includeClosedPRs cfg then UnmergedAndOpenPRs
                 else UnmergedCommits)
       \<and> outputDeletedBranches (snd (process_branch cfg now db b r st)) = outputDeletedBranches st
       \<and> deletedCount (snd (process_branch cfg now db b r st)) = deletedCount st
       \<and> delete_ref_calls (trace (snd (process_branch cfg now db b r st)))
           = delete_ref_calls (trace st)"
proof -
  have d: "decide cfg now db b r =
           Skip (if skipOpenPRs cfg then OpenPullRequests
                 else if includeClosedPRs cfg then UnmergedAndOpenPRs
                 else UnmergedCommits)"
    using assms by (auto simp: decide_def evaluate_def open_pr_gate_def unmerged_gate_def)
  from d process_branch_skip [OF d] show ?thesis by simp
qed

theorem open_pr_branch_is_skipped_witness:
  "decide sample_config sample_now ''main'' (feature ''wip'') ahead_with_open_pr
     = Skip OpenPullRequests
   \<and> decide (sample_config\<lparr>skipOpenPRs := False\<rparr>) sample_now ''main'' (feature ''wip'')
       ahead_with_open_pr = Skip UnmergedAndOpenPRs
   \<and> decide (sample_config\<lparr>skipOpenPRs := False, includeClosedPRs := False\<rparr>) sample_now ''main''
       (feature ''wip'') ahead_with_open_pr = Skip UnmergedCommits"
proof -
  have b: "name (feature ''wip'') \<noteq> ''main''" "\<not> protected (feature ''wip'')"
    by (simp_all add: feature_def)
  have r: "getCommit ahead_with_open_pr = Inr (sample_now - 100 * 86400000)"
    "compareCommits ahead_with_open_pr = Inr 3" "(0::int) < 3"
    "pulls_list_open ahead_with_open_pr = Inr [open_pr]" "[open_pr] \<noteq> []"
    "pulls_list_all ahead_with_open_pr = Inr [closed_unmerged_pr, open_pr]"
    "hasOpenPRs [closed_unmerged_pr, open_pr]"
    by (simp_all add: ahead_with_open_pr_def merged_old_def hasOpenPRs_def open_pr_def)
  have s: "isStale (sample_now - 100 * 86400000) sample_now 90"
    by (simp add: isStale_def staleThreshold_def new_Date_def max_time_value_def sample_now_def)
  have c1: "\<not> isExcluded (rules sample_config) (name (feature ''wip''))"
    "staleDays sample_config = 90" "skipOpenPRs sample_config \<or> skipUmerged sample_config"
    "skipOpenPRs sample_config"
    by (simp_all add: sample_config_def isExcluded_def feature_def)
  let ?c2 = "sample_config\<lparr>skipOpenPRs := False\<rparr>"
  have c2: "\<not> isExcluded (rules ?c2) (name (feature ''wip''))"
    "staleDays ?c2 = 90" "skipOpenPRs ?c2 \<or> skipUmerged ?c2"
    "\<not> skipOpenPRs ?c2" "includeClosedPRs ?c2"
    by (simp_all add: sample_config_def isExcluded_def feature_def)
  let ?c3 = "sample_config\<lparr>skipOpenPRs := False, includeClosedPRs := False\<rparr>"
  have c3: "\<not> isExcluded (rules ?c3) (name (feature ''wip''))"
    "staleDays ?c3 = 90" "skipOpenPRs ?c3 \<or> skipUmerged ?c3"
    "\<not> skipOpenPRs ?c3" "\<not> includeClosedPRs ?c3"
    by (simp_all add: sample_config_def isExcluded_def feature_def)
  note t1 = open_pr_branch_is_skipped [OF b c1(1) r(1) s [folded c1(2)] r(2-7) c1(3)]
  note t2 = open_pr_branch_is_skipped [OF b c2(1) r(1) s [folded c2(2)] r(2-7) c2(3)]
  note t3 = open_pr_branch_is_skipped [OF b c3(1) r(1) s [folded c3(2)] r(2-7) c3(3)]
  from t1 [of initial_state] t2 [of initial_state]
    t3 [of initial_state] c1(4) c2(4,5) c3(4,5)
  show ?thesis by simp
qed


text \<open>The claim as stated fails when both \<open>skipOpenPRs\<close> and \<open>skipUmerged\<close> are
  off: no pull request is looked at, and the branch is deleted, for either value of
  \<open>includeClosedPRs\<close>.\<close>

theorem open_pr_branch_deleted_when_checks_off:
  "name (feature ''wip'') \<noteq> ''main'' \<and> \<not> protected (feature ''wip'')
   \<and> \<not> isExcluded (rules delete_everything_config) (name (feature ''wip''))
   \<and> getCommit ahead_with_open_pr = Inr (sample_now - 100 * 86400000)
   \<and> isStale (sample_now - 100 * 86400000) sample_now (staleDays delete_everything_config)
   \<and> compareCommits ahead_with_open_pr = Inr 3
   \<and> pulls_list_open ahead_with_open_pr = Inr [open_pr]
   \<and> hasOpenPRs [closed_unmerged_pr, open_pr]
   \<and> decide delete_everything_config sample_now ''main'' (feature ''wip'') ahead_with_open_pr = Delete
   \<and> decide (delete_everything_config\<lparr>includeClosedPRs := False\<rparr>) sample_now ''main''
        (feature ''wip'') ahead_with_open_pr = Delete
   \<and> run_loop delete_everything_config sample_now ''main''
        [(feature ''wip'', ahead_with_open_pr)] initial_state =
      (Finished,
       \<lparr>outputDeletedBranches = [''wip''], deletedCount = 1, processedCount = 1,
        trace = [Processing ''wip'', DeleteRefCall ''wip'' True, Decided ''wip'' Delete]\<rparr>)"
  by (simp add: delete_everything_config_def ahead_with_open_pr_def open_pr_def
      closed_unmerged_pr_def sample_defs pipeline_defs)

subsection \<open>Closed, unmerged pull requests\<close>

text \<open>
  C3 (as amended). Take a branch that is not the default branch, not protected and not
  excluded, whose last commit is stale, whose ahead-by count is positive, with no open
  pull request and at least one pull request closed without a merge timestamp, and let
  \<open>skipUmerged\<close> be set. With \<open>includeClosedPRs\<close> set the closed pull request
  overrides the unmerged-commit block: the branch is found deletable; a pass that is not
  a dry run and whose delete-ref call returns deletes it and appends its name, and a dry
  run decides a dry-run deletion. With \<open>includeClosedPRs\<close> off the branch is skipped.
\<close>

theorem closed_unmerged_pr_overrides_block:
  assumes "name b \<noteq> db" and "\<not> protected b" and "\<not> isExcluded (rules cfg) (name b)"
    and "getCommit r = Inr committed" and "isStale committed now (staleDays cfg)"
    and "compareCommits r = Inr ahead" and "0 < ahead"
    and "skipOpenPRs cfg \<longrightarrow> pulls_list_open r = Inr []"
    and "pulls_list_all r = Inr all_prs"
    and "\<not> hasOpenPRs all_prs" and "hasClosedUnmergedPRs all_prs"
    and "skipUmerged cfg"
  shows "(includeClosedPRs cfg \<longrightarrow>
            evaluate cfg now db b r = Deletable
          \<and> (dryRun cfg \<longrightarrow> decide cfg now db b r = DryRunDelete)
          \<and> (\<not> dryRun cfg \<and> deleteRef r = Inr () \<longrightarrow>
                decide cfg now db b r = Delete
              \<and> outputDeletedBranches (snd (process_branch cfg now db b r st))
                    = outputDeletedBranches st @ [name b]))
       \<and> (\<not> includeClosedPRs cfg \<longrightarrow>
            decide cfg now db b r = Skip UnmergedCommits
          \<and> outputDeletedBranches (snd (process_branch cfg now db b r st))
                = outputDeletedBranches st)"
proof -
  obtain sg st' where eq: "process_branch cfg now db b r st = (sg, st')"
    by (cases "process_branch cfg now db b r st")
  have e: "includeClosedPRs cfg \<Longrightarrow> evaluate cfg now db b r = Deletable"
    using assms by (auto simp: evaluate_def open_pr_gate_def unmerged_gate_def)
  have s: "\<not> includeClosedPRs cfg \<Longrightarrow> decide cfg now db b r = Skip UnmergedCommits"
    using assms by (auto simp: decide_def evaluate_def open_pr_gate_def unmerged_gate_def)
  show ?thesis
    using e s process_branch_effect(1) [OF eq]
    by (auto simp: eq decide_def)
qed

theorem closed_unmerged_pr_overrides_block_witness:
  "decide sample_config sample_now ''main'' (feature ''abandoned'') ahead_with_closed_pr = Delete
   \<and> outputDeletedBranches (snd (process_branch sample_config sample_now ''main''
        (feature ''abandoned'') ahead_with_closed_pr initial_state)) = [''abandoned'']
   \<and> decide (sample_config\<lparr>includeClosedPRs := False\<rparr>) sample_now ''main''
        (feature ''abandoned'') ahead_with_closed_pr = Skip UnmergedCommits
   \<and> decide dry_config sample_now ''main'' (feature ''abandoned'') ahead_with_closed_pr
        = DryRunDelete"
proof -
  have b: "name (feature ''abandoned'') \<noteq> ''main''" "\<not> protected (feature ''abandoned'')"
    by (simp_all add: feature_def)
  have r: "getCommit ahead_with_closed_pr = Inr (sample_now - 100 * 86400000)"
    "compareCommits ahead_with_closed_pr = Inr 3" "(0::int) < 3"
    "pulls_list_open ahead_with_closed_pr = Inr []"
    "pulls_list_all ahead_with_closed_pr = Inr [closed_unmerged_pr]"
    "\<not> hasOpenPRs [closed_unmerged_pr]" "hasClosedUnmergedPRs [closed_unmerged_pr]"
    and ok: "deleteRef ahead_with_closed_pr = Inr ()"
    by (simp_all add: ahead_with_closed_pr_def merged_old_def hasOpenPRs_def
        hasClosedUnmergedPRs_def closed_unmerged_pr_def)
  have s: "isStale (sample_now - 100 * 86400000) sample_now 90"
    by (simp add: isStale_def staleThreshold_def new_Date_def max_time_value_def sample_now_def)
  have c1: "\<not> isExcluded (rules sample_config) (name (feature ''abandoned''))"
    "staleDays sample_config = 90" "skipUmerged sample_config"
    "includeClosedPRs sample_config" "\<not> dryRun sample_config"
    by (simp_all add: sample_config_def isExcluded_def feature_def)
  let ?c2 = "sample_config\<lparr>includeClosedPRs := False\<rparr>"
  have c2: "\<not> isExcluded (rules ?c2) (name (feature ''abandoned''))"
    "staleDays ?c2 = 90" "skipUmerged ?c2" "\<not> includeClosedPRs ?c2"
    by (simp_all add: sample_config_def isExcluded_def feature_def)
  have c3: "\<not> isExcluded (rules dry_config) (name (feature ''abandoned''))"
    "staleDays dry_config = 90" "skipUmerged dry_config"
    "includeClosedPRs dry_config" "dryRun dry_config"
    by (simp_all add: dry_config_def sample_config_def isExcluded_def feature_def)
  have i: "outputDeletedBranches initial_state = []" "name (feature ''abandoned'') = ''abandoned''"
    by (simp_all add: initial_state_def feature_def)
  note t1 = closed_unmerged_pr_overrides_block [OF b c1(1) r(1) s [folded c1(2)] r(2,3) impI [OF r(4)] r(5-7) c1(3),
      of initial_state]
  note t2 = closed_unmerged_pr_overrides_block [OF b c2(1) r(1) s [folded c2(2)] r(2,3) impI [OF r(4)] r(5-7) c2(3),
      of initial_state]
  note t3 = closed_unmerged_pr_overrides_block [OF b c3(1) r(1) s [folded c3(2)] r(2,3) impI [OF r(4)] r(5-7) c3(3),
      of initial_state]
  from t1 t2 t3 c1(4,5) c2(4) c3(4,5) ok i show ?thesis by simp
qed

text \<open>The claim as stated fails in a dry run: with \<open>includeClosedPRs\<close> set the
  branch is not deleted, only reported.\<close>

theorem closed_unmerged_pr_dry_run_not_deleted:
  "includeClosedPRs dry_config \<and> skipUmerged dry_config
   \<and> name (feature ''abandoned'') \<noteq> ''main'' \<and> \<not> protected (feature ''abandoned'')
   \<and> \<not> isExcluded (rules dry_config) (name (feature ''abandoned''))
   \<and> isStale (sample_now - 100 * 86400000) sample_now (staleDays dry_config)
   \<and> getCommit ahead_with_closed_pr = Inr (sample_now - 100 * 86400000)
   \<and> compareCommits ahead_with_closed_pr = Inr 3
   \<and> pulls_list_open ahead_with_closed_pr = Inr []
   \<and> pulls_list_all ahead_with_closed_pr = Inr [closed_unmerged_pr]
   \<and> hasClosedUnmergedPRs [closed_unmerged_pr] \<and> \<not> hasOpenPRs [closed_unmerged_pr]
   \<and> decide dry_config sample_now ''main'' (feature ''abandoned'') ahead_with_closed_pr
        = DryRunDelete
   \<and> run_loop dry_config sample_now ''main''
        [(feature ''abandoned'', ahead_with_closed_pr)] initial_state =
      (Finished,
       \<lparr>outputDeletedBranches = [], deletedCount = 0, processedCount = 1,
        trace = [Processing ''abandoned'', Decided ''abandoned'' DryRunDelete]\<rparr>)"
  by (simp add: dry_config_def ahead_with_closed_pr_def closed_unmerged_pr_def
      sample_defs pipeline_defs)

subsection \<open>Stale, fully merged branches\<close>

lemma count_list_distinct_image:
  assumes "distinct (map f xs)" and "x \<in> set xs" and "P x"
  shows "count_list (map f (filter P xs)) (f x) = 1"
  using assms
proof (induction xs)
  case Nil
  then show ?case by simp
next
  case (Cons y ys)
  show ?case
  proof (cases "x = y")
    case True
    have "f y \<notin> set (map f (filter P ys))"
      using Cons.prems(1) by auto
    then have "count_list (map f (filter P ys)) (f y) = 0"
      by (simp only: count_list_0_iff not_False_eq_True)
    with True Cons.prems(3) show ?thesis by simp
  next
    case False
    with Cons.prems have "x \<in> set ys" and "f y \<noteq> f x"
      by auto
    with Cons.IH Cons.prems show ?thesis by simp
  qed
qed

text \<open>
  C7 (as amended). In a listing with distinct branch names, take a branch that is not
  the default branch, not protected and not excluded, whose last commit is stale (its
  timestamp is strictly earlier than \<open>now - staleDays * 86400000\<close>), whose ahead-by count
  is 0 where unmerged commits are checked, and which has no open pull request where open
  pull requests are checked. A pass that is not a dry run, runs through the whole list
  (no cap, no abort) and whose delete-ref call for the branch returns deletes the
  branch, and its name occurs exactly once in the deleted-branches list.
\<close>

theorem stale_merged_branch_deleted_once:
  assumes "(b, r) \<in> set bs" and "distinct (map (name \<circ> fst) bs)"
    and "fst (run_loop cfg now db bs initial_state) = Finished"
    and "\<not> dryRun cfg"
    and "name b \<noteq> db" and "\<not> protected b" and "\<not> isExcluded (rules cfg) (name b)"
    and "getCommit r = Inr committed" and "isStale committed now (staleDays cfg)"
    and "skipOpenPRs cfg \<longrightarrow> pulls_list_open r = Inr []"
    and "skipUmerged cfg \<longrightarrow> compareCommits r = Inr 0"
    and "deleteRef r = Inr ()"
  shows "decide cfg now db b r = Delete
       \<and> count_list (outputDeletedBranches (snd (run_loop cfg now db bs initial_state))) (name b) = 1"
proof -
  have d: "decide cfg now db b r = Delete"
    using assms(4-12) by (auto simp: decide_def evaluate_def open_pr_gate_def unmerged_gate_def)
  obtain st where run: "run_loop cfg now db bs initial_state = (Finished, st)"
    using assms(3) by (cases "run_loop cfg now db bs initial_state") simp
  have out: "outputDeletedBranches st =
      map (name \<circ> fst) (filter (\<lambda>(b', r'). decide cfg now db b' r' = Delete) bs)"
    using run_loop_finished_output [OF run] by (simp add: initial_state_def)
  have "count_list (map (name \<circ> fst) (filter (\<lambda>(b', r'). decide cfg now db b' r' = Delete) bs))
      ((name \<circ> fst) (b, r)) = 1"
    using assms(2) assms(1) by (rule count_list_distinct_image) (simp add: d)
  with d out run show ?thesis by simp
qed

theorem stale_merged_branch_deleted_once_witness:
  "count_list (outputDeletedBranches (snd (run_loop sample_config sample_now ''main''
      [(feature ''main'', merged_old), (feature ''old-1'', merged_old),
       (feature ''old-2'', merged_with_open_pr)] initial_state))) ''old-1'' = 1"
proof -
  let ?bs = "[(feature ''main'', merged_old), (feature ''old-1'', merged_old),
       (feature ''old-2'', merged_with_open_pr)]"
  have m: "(feature ''old-1'', merged_old) \<in> set ?bs" "distinct (map (name \<circ> fst) ?bs)"
    by (simp_all add: feature_def)
  have fin: "fst (run_loop sample_config sample_now ''main'' ?bs initial_state) = Finished"
    by (simp add: merged_with_open_pr_def open_pr_def sample_defs pipeline_defs)
  have c: "\<not> dryRun sample_config" "name (feature ''old-1'') \<noteq> ''main''"
    "\<not> protected (feature ''old-1'')"
    "\<not> isExcluded (rules sample_config) (name (feature ''old-1''))"
    "staleDays sample_config = 90"
    by (simp_all add: sample_config_def feature_def isExcluded_def)
  have r: "getCommit merged_old = Inr (sample_now - 100 * 86400000)"
    "skipOpenPRs sample_config \<longrightarrow> pulls_list_open merged_old = Inr []"
    "skipUmerged sample_config \<longrightarrow> compareCommits merged_old = Inr 0"
    "deleteRef merged_old = Inr ()"
    by (simp_all add: merged_old_def)
  have s: "isStale (sample_now - 100 * 86400000) sample_now 90"
    by (simp add: isStale_def staleThreshold_def new_Date_def max_time_value_def sample_now_def)
  have n: "name (feature ''old-1'') = ''old-1''"
    by (simp add: feature_def)
  from stale_merged_branch_deleted_once [OF m fin c(1-4) r(1) s [folded c(5)] r(2-4)] n
  show ?thesis by simp
qed

text \<open>The claim as stated fails in two ways. A branch whose last commit is exactly
  \<open>staleDays\<close> days old has an age of at least \<open>staleDays\<close> days, and is active:
  the comparison is strict. A stale branch with ahead-by 0 and an open pull request is
  skipped while \<open>skipOpenPRs\<close> is set.\<close>

theorem stale_merged_branch_not_always_deleted:
  "daysSinceCommit sample_now (sample_now - 90 * 86400000) \<ge> staleDays sample_config
   \<and> getCommit exactly_ninety_days = Inr (sample_now - 90 * 86400000)
   \<and> compareCommits exactly_ninety_days = Inr 0
   \<and> decide sample_config sample_now ''main'' (feature ''old-1'') exactly_ninety_days
        = Skip ActiveBranch
   \<and> fst (run_loop sample_config sample_now ''main''
          [(feature ''old-1'', exactly_ninety_days)] initial_state) = Finished
   \<and> outputDeletedBranches (snd (run_loop sample_config sample_now ''main''
          [(feature ''old-1'', exactly_ninety_days)] initial_state)) = []
   \<and> daysSinceCommit sample_now (sample_now - 100 * 86400000) \<ge> staleDays sample_config
   \<and> getCommit merged_with_open_pr = Inr (sample_now - 100 * 86400000)
   \<and> compareCommits merged_with_open_pr = Inr 0
   \<and> decide sample_config sample_now ''main'' (feature ''old-2'') merged_with_open_pr
        = Skip OpenPullRequests
   \<and> fst (run_loop sample_config sample_now ''main''
          [(feature ''old-2'', merged_with_open_pr)] initial_state) = Finished
   \<and> outputDeletedBranches (snd (run_loop sample_config sample_now ''main''
          [(feature ''old-2'', merged_with_open_pr)] initial_state)) = []"
  by (simp add: exactly_ninety_days_def merged_with_open_pr_def open_pr_def daysSinceCommit_def
      sample_defs pipeline_defs)

subsection \<open>The throttle\<close>

text \<open>Which passes suspend. A pass that ends in a skip other than that of an active
  branch, or in a caught error, ends with its log line; a pass over an active branch, a
  deletion and a dry-run deletion end with the suspension when a delay is configured.\<close>

lemma continue_skips_the_throttle:
  assumes "decide cfg now db b r = Skip why" and "why \<noteq> ActiveBranch"
  shows "trace (snd (process_branch cfg now db b r st))
       = trace st @ [Processing (name b), Decided (name b) (Skip why)]"
  using assms
  by (auto simp: process_branch_def decide_def emit_def Let_def
      split: verdict.splits sum.splits if_splits)

lemma caught_error_skips_the_throttle:
  assumes "decide cfg now db b r = Failed e"
  shows "last (trace (snd (process_branch cfg now db b r st))) = Decided (name b) (Failed e)"
  using assms
  by (auto simp: process_branch_def decide_def on_error_def emit_def Let_def
      split: verdict.splits sum.splits if_splits)

lemma full_pass_reaches_the_throttle:
  assumes "0 < processThrottleMs cfg"
    and "decide cfg now db b r = Skip ActiveBranch \<or> decide cfg now db b r = Delete
       \<or> decide cfg now db b r = DryRunDelete"
  shows "last (trace (snd (process_branch cfg now db b r st))) = Waiting (processThrottleMs cfg)"
  using assms
  by (auto simp: process_branch_def decide_def throttle_def emit_def Let_def
      split: verdict.splits sum.splits if_splits)

text \<open>
  C5 (the code at a failing input). With a throttle of 1000 ms configured, the run
  over the default branch, a stale branch with an open pull request and a stale merged
  branch suspends once only, after the deletion: the two skipped branches leave the
  loop body through \<open>continue\<close>, and no suspension separates them from the branch
  that follows.
\<close>

theorem no_wait_after_skipped_branch:
  "0 < processThrottleMs throttled_config
   \<and> run_loop throttled_config sample_now ''main''
        [(feature ''main'', merged_old), (feature ''wip'', ahead_with_open_pr),
         (feature ''old-1'', merged_old)] initial_state =
      (Finished,
       \<lparr>outputDeletedBranches = [''old-1''], deletedCount = 1, processedCount = 1,
        trace = [Processing ''main'', Decided ''main'' (Skip DefaultBranch),
                 Processing ''wip'', Decided ''wip'' (Skip OpenPullRequests),
                 Processing ''old-1'', DeleteRefCall ''old-1'' True, Decided ''old-1'' Delete,
                 Waiting 1000]\<rparr>)"
  by (simp add: throttled_config_def ahead_with_open_pr_def open_pr_def closed_unmerged_pr_def
      sample_defs pipeline_defs)

subsection \<open>Exclusion rules\<close>

text \<open>Where the code and the specification agree. An entry without a star is
  compared by equality. For a wildcard entry whose characters other than the star are
  plain, the constructor succeeds, and on branch names without line terminators the
  compiled pattern matches exactly the names the glob of the specification matches.
  The examples of the specification come out as it says.\<close>

lemma parse_replace_stars:
  assumes "\<forall>c \<in> set item. is_plain_char c"
  shows "parse_pattern (replace_stars item @ rest) acc
       = parse_pattern rest (rev (glob_terms item) @ acc)"
  using assms
proof (induction item arbitrary: acc)
  case Nil
  then show ?case by simp
next
  case (Cons c cs)
  then have ih: "\<And>acc. parse_pattern (replace_stars cs @ rest) acc
       = parse_pattern rest (rev (glob_terms cs) @ acc)"
    by simp
  show ?case
  proof (cases "c = CHR ''*''")
    case True
    then show ?thesis
      by (simp add: ih is_unmodelled_char_def repeat_of_def)
  next
    case False
    with Cons.prems have "is_plain_char c" by simp
    with False show ?thesis
      by (simp add: ih is_plain_char_def repeat_of_def)
  qed
qed

lemma RegExp_new_plain:
  assumes "\<forall>c \<in> set item. is_plain_char c"
  shows "RegExp_new (pattern_source item) = Compiled (AssertStart # glob_terms item @ [AssertEnd])"
  using parse_replace_stars [OF assms, of "''$''" "[AssertStart]"]
  by (simp add: RegExp_new_def pattern_source_def is_unmodelled_char_def)

lemma match_from_anchored:
  "match_from (AssertStart # ts) False s = False"
  by (induction s) auto

lemma RegExp_test_anchored:
  "RegExp_test (AssertStart # ts) s = match_here ts True s"
  by (cases s) (simp_all add: RegExp_test_def match_from_anchored)

lemma match_here_glob_terms:
  assumes "\<forall>c \<in> set s. atom_matches Dot c"
  shows "match_here (glob_terms item @ [AssertEnd]) at_start s = spec_glob_matches item s"
  using assms
proof (induction item s arbitrary: at_start rule: spec_glob_matches.induct)
  case (1 s)
  then show ?case by simp
next
  case (2 p ps)
  then show ?case by simp
next
  case (3 p ps c cs)
  show ?case
  proof (cases "p = CHR ''*''")
    case True
    have a: "match_here (glob_terms ps @ [AssertEnd]) at_start (c # cs) = spec_glob_matches ps (c # cs)"
      using "3.IH"(1) [OF True] "3.prems" by simp
    have b: "match_here (glob_terms (p # ps) @ [AssertEnd]) False cs = spec_glob_matches (p # ps) cs"
      using "3.IH"(2) [OF True] "3.prems" by simp
    have d: "atom_matches Dot c" using "3.prems" by simp
    from a b d True show ?thesis by simp
  next
    case False
    have a: "match_here (glob_terms ps @ [AssertEnd]) False cs = spec_glob_matches ps cs"
      using "3.IH"(3) [OF False] "3.prems" by simp
    from a False show ?thesis by auto
  qed
qed

lemma wildcard_entry_refines_glob:
  assumes "includes_star item"
    and "\<forall>c \<in> set item. is_plain_char c"
    and "\<forall>c \<in> set branchName. c \<noteq> CHR 0x0A \<and> c \<noteq> CHR 0x0D"
  shows "\<exists>rs. compile_items [item] \<lparr>skipBranchNames = [], skipBranchPatternsRegex = []\<rparr> = Rules rs
           \<and> (isExcluded rs branchName \<longleftrightarrow> spec_glob_matches item branchName)"
proof -
  have "\<forall>c \<in> set branchName. atom_matches Dot c"
    using assms(3) by simp
  then show ?thesis
    using RegExp_new_plain [OF assms(2)] match_here_glob_terms [of branchName item True] assms(1)
    by (simp add: RegExp_test_anchored isExcluded_def)
qed

lemma literal_entry_matches_by_equality:
  assumes "\<not> includes_star item"
  shows "\<exists>rs. compile_items [item] \<lparr>skipBranchNames = [], skipBranchPatternsRegex = []\<rparr> = Rules rs
           \<and> (isExcluded rs branchName \<longleftrightarrow> branchName = item)"
  using assms by (simp add: isExcluded_def)

lemma release_wildcard_examples:
  "\<exists>rs. compile_exclusions ''release/*'' = Rules rs
     \<and> isExcluded rs ''release/1.0'' \<and> isExcluded rs ''release/''
     \<and> \<not> isExcluded rs ''release'' \<and> \<not> isExcluded rs ''prod/release/1''"
  by (simp add: regexp_defs isExcluded_def)


text \<open>
  C8 (the code at a failing input). The entry \<open>v1.*\<close> compiles to a pattern whose
  dot matches any character, so the branch \<open>v10\<close> is excluded, although the pattern
  in which only \<open>*\<close> is special does not match it.
\<close>

theorem dot_in_wildcard_entry_matches_any_character:
  "compile_exclusions ''v1.*'' =
     Rules \<lparr>skipBranchNames = [],
            skipBranchPatternsRegex =
              [[AssertStart, Single (PatternChar CHR ''v''), Single (PatternChar CHR ''1''),
                Single Dot, Repeated Dot ZeroOrMore False, AssertEnd]]\<rparr>
   \<and> isExcluded
        \<lparr>skipBranchNames = [],
         skipBranchPatternsRegex =
           [[AssertStart, Single (PatternChar CHR ''v''), Single (PatternChar CHR ''1''),
             Single Dot, Repeated Dot ZeroOrMore False, AssertEnd]]\<rparr> ''v10''
   \<and> \<not> spec_glob_matches ''v1.*'' ''v10''"
  by (simp add: regexp_defs isExcluded_def)

text \<open>
  C9 (the code at a failing input). For the entry \<open>c++*\<close> the constructor of the
  regular expression throws, and the script ends as failed before it looks at any
  branch.
\<close>

theorem wildcard_entry_can_fail_to_compile:
  "compile_exclusions ''main, c++*'' = RegExpThrew
   \<and> main (sample_inputs\<lparr>skip_branches := ''main, c++*''\<rparr>)
        (sample_world [(feature ''old-1'', merged_old)]) =
      Some \<lparr>deleted_branches = Some [], deleted_info = Some 0,
            failed = Some ''Action failed: Invalid regular expression''\<rparr>"
  by (simp add: regexp_defs main_def validate_def checked_def sample_inputs_def caught_def
      initial_state_def)

end
